theory Spec2Isabelle
  imports Main
begin

section \<open>asyncudp: the data model\<close>

text \<open>
  The module \<^verbatim>\<open>asyncudp/__init__.py\<close> has two classes. \<^verbatim>\<open>_SocketProtocol\<close> is
  the object the event loop calls back into: it owns an unbounded FIFO queue
  \<^verbatim>\<open>_packets\<close> and a one-slot mailbox \<^verbatim>\<open>_error\<close>. \<^verbatim>\<open>Socket\<close> wraps a
  transport and that protocol object.

  A queue element is either the tuple \<^verbatim>\<open>(data, addr)\<close> put by
  \<^verbatim>\<open>datagram_received\<close> or the value \<^verbatim>\<open>None\<close> put by \<^verbatim>\<open>connection_lost\<close>;
  it is modelled as an \<open>option\<close>, \<open>None\<close> being Python's \<^verbatim>\<open>None\<close>.
\<close>

type_synonym payload = string
type_synonym addr = "string \<times> nat"
type_synonym packet = "payload \<times> addr"

text \<open>
  An exception object handed to \<^verbatim>\<open>error_received\<close> by the event loop. The code
  looks at two things only: which object it is (it is re-raised as it is) and
  its truth value (\<^verbatim>\<open>if self._error:\<close>). Equality of \<open>exc\<close> values stands for
  object identity. An ordinary exception tests true; a class defining
  \<^verbatim>\<open>__bool__\<close> or \<^verbatim>\<open>__len__\<close> may test false.
\<close>

datatype exc = Exc (ident: nat) (truthy: bool)

text \<open>
  What can propagate out of \<^verbatim>\<open>Socket.recvfrom\<close>: the \<^verbatim>\<open>ClosedError\<close> that
  the method itself constructs and raises, or the object taken from the mailbox.
  \<open>Reported\<close> is the injection into this sum, not a wrapper object: the value
  raised is the \<open>exc\<close> itself. The event loop reports its own errors and
  never an instance of this module's \<^verbatim>\<open>ClosedError\<close>.
\<close>

datatype exception = ClosedError | Reported exc

record SocketProtocol =
  packets :: "packet option list"
  error :: "exc option"

text \<open>
  The transport is the event loop's object, not part of this module. It is
  modelled by what the module's calls do to it: a log of the \<^verbatim>\<open>sendto\<close> calls
  that returned, a count of the \<^verbatim>\<open>close\<close> calls, and \<open>sendto_check\<close>, what the
  transport does with a \<^verbatim>\<open>sendto\<close> call before it returns:
  \<^item> \<open>Accepts\<close>: the datagram is sent or buffered;
  \<^item> \<open>Raises e\<close>: the transport raises \<open>e\<close> to its caller (a payload or an
    address it refuses);
  \<^item> \<open>Reports e\<close>: the send fails in the operating system and the transport,
    which holds the socket's protocol object, calls the protocol's
    \<^verbatim>\<open>error_received(e)\<close> and returns.
\<close>

datatype verdict = Accepts | Raises exc | Reports exc

record Transport =
  sendto_calls :: "(payload \<times> addr option) list"
  close_calls :: nat
  sendto_check :: "payload \<Rightarrow> addr option \<Rightarrow> verdict"

record Socket =
  transport :: Transport
  protocol :: SocketProtocol

section \<open>\<^verbatim>\<open>_SocketProtocol\<close>: the callbacks\<close>

definition init_protocol :: SocketProtocol where
  "init_protocol = \<lparr>packets = [], error = None\<rparr>"

definition connection_made :: "SocketProtocol \<Rightarrow> SocketProtocol" where
  "connection_made p = p"

definition connection_lost :: "SocketProtocol \<Rightarrow> SocketProtocol" where
  "connection_lost p = p\<lparr>packets := packets p @ [None]\<rparr>"

definition datagram_received :: "payload \<Rightarrow> addr \<Rightarrow> SocketProtocol \<Rightarrow> SocketProtocol" where
  "datagram_received data a p = p\<lparr>packets := packets p @ [Some (data, a)]\<rparr>"

definition error_received :: "exc \<Rightarrow> SocketProtocol \<Rightarrow> SocketProtocol" where
  "error_received e p = p\<lparr>error := Some e\<rparr>"

text \<open>One callback invocation by the event loop, and a sequence of them.\<close>

datatype callback =
  Connection_made
  | Connection_lost
  | Datagram_received payload addr
  | Error_received exc

fun deliver :: "callback \<Rightarrow> SocketProtocol \<Rightarrow> SocketProtocol" where
  "deliver Connection_made p = connection_made p"
| "deliver Connection_lost p = connection_lost p"
| "deliver (Datagram_received data a) p = datagram_received data a p"
| "deliver (Error_received e) p = error_received e p"

fun deliver_all :: "callback list \<Rightarrow> SocketProtocol \<Rightarrow> SocketProtocol" where
  "deliver_all [] p = p"
| "deliver_all (cb # cbs) p = deliver_all cbs (deliver cb p)"

section \<open>\<^verbatim>\<open>_SocketProtocol.recvfrom\<close>: the polling loop\<close>

text \<open>
  Time is counted in tenths of a time unit, so the timeout \<^verbatim>\<open>0.6\<close> of
  \<^verbatim>\<open>asyncio.wait_for\<close> is 6. The future of the event loop is a finite list of
  timed callbacks, in the order the loop will invoke them.
\<close>

definition poll_interval :: nat where
  "poll_interval = 6"

type_synonym event = "nat \<times> callback"

datatype ('a, 'e) outcome = Returned 'a | Raised 'e | Suspended

record ('r, 's) completion =
  outcome :: 'r
  finished :: nat
  state :: 's
  pending :: "event list"

text \<open>
  \<open>recvfrom_loop now dl p evs\<close> is the body of \<^verbatim>\<open>while True\<close> with the clock at
  \<open>now\<close>, inside \<^verbatim>\<open>wait_for(self._packets.get(), timeout=0.6)\<close> whose
  deadline is \<open>dl\<close>:
  \<^item> a non-empty queue completes \<^verbatim>\<open>get()\<close>: its head is returned;
  \<^item> otherwise the task sleeps. A callback due before the deadline runs (only
    a \<^verbatim>\<open>put_nowait\<close> makes the queue non-empty and so ends the wait);
  \<^item> when nothing more is due before the deadline, \<^verbatim>\<open>TimeoutError\<close> is caught
    at \<open>dl\<close>: a mailbox whose content tests true is emptied and its content
    raised; otherwise the loop goes round, with a new deadline;
  \<^item> when the event loop has no callback left, the queue is empty and the
    mailbox holds nothing that tests true, every later round is the same: the
    coroutine never completes, which is the outcome \<open>Suspended\<close>.

  A callback due exactly at the deadline runs after the timeout has been
  handled. A callback whose time is already past when the task goes to sleep
  runs at once. \<open>finished\<close> is the time at which the call returned or raised;
  for \<open>Suspended\<close> it is only the last deadline that was looked at. \<open>pending\<close>
  are the callbacks the event loop has still to make.
\<close>

function recvfrom_loop ::
  "nat \<Rightarrow> nat \<Rightarrow> SocketProtocol \<Rightarrow> event list
    \<Rightarrow> ((packet option, exc) outcome, SocketProtocol) completion" where
  "recvfrom_loop now dl p evs =
     (case packets p of
        tr # rest \<Rightarrow>
          \<lparr>outcome = Returned tr, finished = now, state = p\<lparr>packets := rest\<rparr>, pending = evs\<rparr>
      | [] \<Rightarrow>
          (case evs of
             (t, cb) # evs' \<Rightarrow>
               if t < dl then recvfrom_loop (max now t) dl (deliver cb p) evs'
               else (case error p of
                       Some e \<Rightarrow>
                         if truthy e
                         then \<lparr>outcome = Raised e, finished = dl,
                               state = p\<lparr>error := None\<rparr>, pending = evs\<rparr>
                         else recvfrom_loop dl (dl + poll_interval) p evs
                     | None \<Rightarrow> recvfrom_loop dl (dl + poll_interval) p evs)
           | [] \<Rightarrow>
               (case error p of
                  Some e \<Rightarrow>
                    if truthy e
                    then \<lparr>outcome = Raised e, finished = dl,
                          state = p\<lparr>error := None\<rparr>, pending = []\<rparr>
                    else \<lparr>outcome = Suspended, finished = dl, state = p, pending = []\<rparr>
                | None \<Rightarrow> \<lparr>outcome = Suspended, finished = dl, state = p, pending = []\<rparr>)))"
  by pat_completeness auto
termination
  by (relation "measures [\<lambda>(now, dl, p, evs). length evs,
                          \<lambda>(now, dl, p, evs). (case evs of [] \<Rightarrow> 0 | (t, cb) # _ \<Rightarrow> t + poll_interval - dl)]")
     (auto simp: poll_interval_def)

declare recvfrom_loop.simps [simp del]

definition SocketProtocol_recvfrom ::
  "nat \<Rightarrow> SocketProtocol \<Rightarrow> event list
    \<Rightarrow> ((packet option, exc) outcome, SocketProtocol) completion" where
  "SocketProtocol_recvfrom now p evs = recvfrom_loop now (now + poll_interval) p evs"

section \<open>\<^verbatim>\<open>Socket\<close>\<close>

definition Socket_close :: "Socket \<Rightarrow> Socket" where
  "Socket_close s = s\<lparr>transport := (transport s)\<lparr>close_calls := Suc (close_calls (transport s))\<rparr>\<rparr>"

text \<open>
  The transport's \<^verbatim>\<open>sendto\<close>, on the transport and on the protocol object it
  shares with the socket. Then \<^verbatim>\<open>Socket.sendto\<close>, which is the call
  \<^verbatim>\<open>self._transport.sendto(data, addr)\<close>, with \<^verbatim>\<open>addr=None\<close> when the caller
  omits it. There is no \<^verbatim>\<open>try\<close> around the call: what the transport raises
  propagates to the caller of \<^verbatim>\<open>Socket.sendto\<close>.
\<close>

definition Transport_sendto ::
  "Transport \<Rightarrow> SocketProtocol \<Rightarrow> payload \<Rightarrow> addr option
    \<Rightarrow> exc + Transport \<times> SocketProtocol" where
  "Transport_sendto t p data a =
     (case sendto_check t data a of
        Accepts \<Rightarrow> Inr (t\<lparr>sendto_calls := sendto_calls t @ [(data, a)]\<rparr>, p)
      | Raises e \<Rightarrow> Inl e
      | Reports e \<Rightarrow>
          Inr (t\<lparr>sendto_calls := sendto_calls t @ [(data, a)]\<rparr>, error_received e p))"

definition Socket_sendto :: "Socket \<Rightarrow> payload \<Rightarrow> addr option \<Rightarrow> exc + Socket" where
  "Socket_sendto s data a =
     (case Transport_sendto (transport s) (protocol s) data a of
        Inl e \<Rightarrow> Inl e
      | Inr (t, p) \<Rightarrow> Inr (s\<lparr>transport := t, protocol := p\<rparr>))"

definition Socket_recvfrom ::
  "nat \<Rightarrow> Socket \<Rightarrow> event list \<Rightarrow> ((packet, exception) outcome, Socket) completion" where
  "Socket_recvfrom now s evs =
     (let r = SocketProtocol_recvfrom now (protocol s) evs;
          s' = s\<lparr>protocol := state r\<rparr>
      in case outcome r of
           Returned None \<Rightarrow>
             \<lparr>outcome = Raised ClosedError, finished = finished r, state = s', pending = pending r\<rparr>
         | Returned (Some packet) \<Rightarrow>
             \<lparr>outcome = Returned packet, finished = finished r, state = s', pending = pending r\<rparr>
         | Raised e \<Rightarrow>
             \<lparr>outcome = Raised (Reported e), finished = finished r, state = s', pending = pending r\<rparr>
         | Suspended \<Rightarrow>
             \<lparr>outcome = Suspended, finished = finished r, state = s', pending = pending r\<rparr>)"

text \<open>
  Successive calls by one consumer: each call starts when the previous one
  completed, on the state and the remaining callbacks it left. A call that
  never completes is the last one.
\<close>

fun recvfrom_times ::
  "nat \<Rightarrow> nat \<Rightarrow> Socket \<Rightarrow> event list \<Rightarrow> (packet, exception) outcome list" where
  "recvfrom_times 0 now s evs = []"
| "recvfrom_times (Suc n) now s evs =
     (let r = Socket_recvfrom now s evs
      in outcome r #
         (if outcome r = Suspended then []
          else recvfrom_times n (finished r) (state r) (pending r)))"

text \<open>
  The scoped use \<^verbatim>\<open>async with sock: body\<close>. The ways a body is left are the
  three \<open>exit_path\<close>s; \<^verbatim>\<open>__aexit__(*exc_info)\<close> ignores its arguments and
  calls \<^verbatim>\<open>self.close()\<close>.
\<close>

datatype exit_path = Normal_return | Exception_raised exc | Cancelled

definition Socket_aenter :: "Socket \<Rightarrow> Socket" where
  "Socket_aenter s = s"

definition Socket_aexit :: "Socket \<Rightarrow> exit_path \<Rightarrow> Socket" where
  "Socket_aexit s exc_info = Socket_close s"

definition async_with :: "Socket \<Rightarrow> (Socket \<Rightarrow> Socket \<times> exit_path) \<Rightarrow> Socket \<times> exit_path" where
  "async_with s body =
     (let (s', path) = body (Socket_aenter s) in (Socket_aexit s' path, path))"

text \<open>
  \<^verbatim>\<open>create_socket\<close> returns \<^verbatim>\<open>Socket(transport, protocol)\<close> with the transport
  the event loop made and a protocol object fresh from \<^verbatim>\<open>_SocketProtocol()\<close>.
\<close>

definition create_socket :: "Transport \<Rightarrow> Socket" where
  "create_socket t = \<lparr>transport = t, protocol = init_protocol\<rparr>"

section \<open>Vocabulary of the properties\<close>

text \<open>What one callback puts in the queue (see \<open>packets_deliver\<close> below).\<close>

fun puts :: "callback \<Rightarrow> packet option list" where
  "puts Connection_made = []"
| "puts Connection_lost = [None]"
| "puts (Datagram_received data a) = [Some (data, a)]"
| "puts (Error_received e) = []"

text \<open>The callbacks for a sequence of datagrams, in order.\<close>

definition datagrams :: "packet list \<Rightarrow> callback list" where
  "datagrams ds = map (\<lambda>(data, a). Datagram_received data a) ds"


text \<open>Three transports for concrete runs: one accepts every \<^verbatim>\<open>sendto\<close>, one
  is connected to a peer and raises on any other explicit address, and one
  whose every send fails in the operating system and is reported to the
  protocol.\<close>

definition accepting_transport :: Transport where
  "accepting_transport =
     \<lparr>sendto_calls = [], close_calls = 0, sendto_check = (\<lambda>data a. Accepts)\<rparr>"

definition connected_transport :: "addr \<Rightarrow> Transport" where
  "connected_transport peer =
     \<lparr>sendto_calls = [], close_calls = 0,
      sendto_check =
        (\<lambda>data a. if a = None \<or> a = Some peer then Accepts else Raises (Exc 22 True))\<rparr>"

definition refused_transport :: Transport where
  "refused_transport =
     \<lparr>sendto_calls = [], close_calls = 0, sendto_check = (\<lambda>data a. Reports (Exc 111 True))\<rparr>"

text \<open>
  The callbacks the event loop made during a call that started with the future
  \<open>evs\<close> and left \<open>pending r\<close> of it.
\<close>

definition ran :: "('r, 's) completion \<Rightarrow> event list \<Rightarrow> callback list" where
  "ran r evs = map snd (take (length evs - length (pending r)) evs)"

text \<open>
  How a call of the protocol's \<^verbatim>\<open>recvfrom\<close> ends, as a relation between the
  protocol \<open>q\<close> once the callbacks made during the call have run, the outcome, and
  the protocol \<open>q'\<close> the call leaves: a returned element has been taken from the
  head of the queue; a raised error has been taken from the mailbox; a call that
  never completes takes nothing.
\<close>

definition completes ::
  "SocketProtocol \<Rightarrow> (packet option, exc) outcome \<Rightarrow> SocketProtocol \<Rightarrow> bool" where
  "completes q out q' =
     (case out of
        Returned x \<Rightarrow> packets q = x # packets q' \<and> error q' = error q
      | Raised e \<Rightarrow> packets q' = packets q \<and> error q = Some e \<and> error q' = None
      | Suspended \<Rightarrow> q' = q)"


text \<open>
  Concrete sockets and futures of the event loop, for the runs evaluated below:
  a socket whose mailbox holds an error that tests false, one whose mailbox
  holds an ordinary error, one whose queue holds only the closure sentinel, and
  a future in which an error is reported at time 1 and datagrams arrive at
  times 3 and 8.
\<close>

definition falsy_report :: Socket where
  "falsy_report = (create_socket accepting_transport)
     \<lparr>protocol := error_received (Exc 1 False) init_protocol\<rparr>"

definition pending_report :: Socket where
  "pending_report = (create_socket accepting_transport)
     \<lparr>protocol := error_received (Exc 1 True) init_protocol\<rparr>"


definition busy_events :: "event list" where
  "busy_events =
     [(1, Error_received (Exc 1 True)),
      (3, Datagram_received ''a'' (''10.0.0.2'', 9)),
      (8, Datagram_received ''b'' (''10.0.0.2'', 9))]"

definition busy_first :: "((packet, exception) outcome, Socket) completion" where
  "busy_first = Socket_recvfrom 0 (create_socket accepting_transport) busy_events"

definition busy_second :: "((packet, exception) outcome, Socket) completion" where
  "busy_second = Socket_recvfrom (finished busy_first) (state busy_first) (pending busy_first)"

section \<open>The loop, one case at a time\<close>

text \<open>
  The defining equation of \<open>recvfrom_loop\<close> is split into its five cases, and
  the induction rule of the function is restated along the same cases.
\<close>

lemma recvfrom_loop_head:
  "packets p = tr # rest \<Longrightarrow>
   recvfrom_loop now dl p evs =
     \<lparr>outcome = Returned tr, finished = now, state = p\<lparr>packets := rest\<rparr>, pending = evs\<rparr>"
  by (subst recvfrom_loop.simps) simp

lemma recvfrom_loop_idle:
  "packets p = [] \<Longrightarrow>
   recvfrom_loop now dl p [] =
     (case error p of
        Some e \<Rightarrow> if truthy e
          then \<lparr>outcome = Raised e, finished = dl, state = p\<lparr>error := None\<rparr>, pending = []\<rparr>
          else \<lparr>outcome = Suspended, finished = dl, state = p, pending = []\<rparr>
      | None \<Rightarrow> \<lparr>outcome = Suspended, finished = dl, state = p, pending = []\<rparr>)"
  by (subst recvfrom_loop.simps) simp

lemma recvfrom_loop_due:
  "packets p = [] \<Longrightarrow> t < dl \<Longrightarrow>
   recvfrom_loop now dl p ((t, cb) # evs) = recvfrom_loop (max now t) dl (deliver cb p) evs"
  by (subst recvfrom_loop.simps) simp

lemma recvfrom_loop_timeout_raise:
  "packets p = [] \<Longrightarrow> dl \<le> t \<Longrightarrow> error p = Some e \<Longrightarrow> truthy e \<Longrightarrow>
   recvfrom_loop now dl p ((t, cb) # evs) =
     \<lparr>outcome = Raised e, finished = dl, state = p\<lparr>error := None\<rparr>, pending = (t, cb) # evs\<rparr>"
  by (subst recvfrom_loop.simps) simp

lemma recvfrom_loop_timeout_again:
  "packets p = [] \<Longrightarrow> dl \<le> t \<Longrightarrow> (\<forall>e. error p = Some e \<longrightarrow> \<not> truthy e) \<Longrightarrow>
   recvfrom_loop now dl p ((t, cb) # evs) = recvfrom_loop dl (dl + poll_interval) p ((t, cb) # evs)"
  by (subst recvfrom_loop.simps) (auto split: option.splits)

lemma packets_deliver: "packets (deliver cb p) = packets p @ puts cb"
  by (cases cb) (simp_all add: connection_made_def connection_lost_def
      datagram_received_def error_received_def)

lemma sentinel_puts: "None \<in> set (puts cb) \<longleftrightarrow> cb = Connection_lost"
  by (cases cb) simp_all



lemma loop_induct [case_names head idle due raise again]:
  assumes head: "\<And>now dl p evs tr rest. packets p = tr # rest \<Longrightarrow> P now dl p evs"
    and idle: "\<And>now dl p. packets p = [] \<Longrightarrow> P now dl p []"
    and due: "\<And>now dl p t cb evs. packets p = [] \<Longrightarrow> t < dl \<Longrightarrow>
               P (max now t) dl (deliver cb p) evs \<Longrightarrow> P now dl p ((t, cb) # evs)"
    and raise: "\<And>now dl p t cb evs e. packets p = [] \<Longrightarrow> dl \<le> t \<Longrightarrow>
               error p = Some e \<Longrightarrow> truthy e \<Longrightarrow> P now dl p ((t, cb) # evs)"
    and again: "\<And>now dl p t cb evs. packets p = [] \<Longrightarrow> dl \<le> t \<Longrightarrow>
               (\<forall>e. error p = Some e \<longrightarrow> \<not> truthy e) \<Longrightarrow>
               P dl (dl + poll_interval) p ((t, cb) # evs) \<Longrightarrow> P now dl p ((t, cb) # evs)"
  shows "P now dl p evs"
proof (induction now dl p evs rule: recvfrom_loop.induct)
  case (1 now dl p evs)
  show ?case
  proof (cases "packets p")
    case (Cons tr rest)
    then show ?thesis by (rule head)
  next
    case Nil
    show ?thesis
    proof (cases evs)
      case empty: Nil
      with Nil show ?thesis by (simp add: idle)
    next
      case (Cons ev evs')
      obtain t cb where ev: "ev = (t, cb)" by (cases ev)
      have evs: "evs = (t, cb) # evs'" using Cons ev by simp
      show ?thesis
      proof (cases "t < dl")
        case True
        have step: "P (max now t) dl (deliver cb p) evs'"
          by (rule "1.IH"(1) [OF Nil Cons ev [symmetric] True])
        show ?thesis unfolding evs by (rule due [OF Nil True step])
      next
        case False
        then have late: "dl \<le> t" by simp
        show ?thesis
        proof (cases "error p")
          case None
          have round: "P dl (dl + poll_interval) p ((t, cb) # evs')"
            using "1.IH"(2) [OF Nil Cons ev [symmetric] False None] by (simp add: evs)
          have quiet: "\<forall>e. error p = Some e \<longrightarrow> \<not> truthy e" using None by simp
          show ?thesis unfolding evs by (rule again [OF Nil late quiet round])
        next
          case (Some e)
          show ?thesis
          proof (cases "truthy e")
            case True
            show ?thesis unfolding evs by (rule raise [OF Nil late Some True])
          next
            case nt: False
            have round: "P dl (dl + poll_interval) p ((t, cb) # evs')"
              using "1.IH"(3) [OF Nil Cons ev [symmetric] False Some nt] by (simp add: evs)
            have quiet: "\<forall>e. error p = Some e \<longrightarrow> \<not> truthy e" using Some nt by simp
            show ?thesis unfolding evs by (rule again [OF Nil late quiet round])
          qed
        qed
      qed
    qed
  qed
qed


lemma raised_truthy:
  "outcome (recvfrom_loop now dl p evs) = Raised x \<Longrightarrow> truthy x"
proof (induction now dl p evs rule: loop_induct)
  case (head now dl p evs tr rest)
  then show ?case by (simp add: recvfrom_loop_head)
next
  case (idle now dl p)
  then show ?case by (simp add: recvfrom_loop_idle split: option.splits if_splits)
next
  case (due now dl p t cb evs)
  then show ?case by (simp add: recvfrom_loop_due)
next
  case (raise now dl p t cb evs e)
  then show ?case by (simp add: recvfrom_loop_timeout_raise)
next
  case (again now dl p t cb evs)
  have "recvfrom_loop now dl p ((t, cb) # evs)
        = recvfrom_loop dl (dl + poll_interval) p ((t, cb) # evs)"
    using again.hyps by (simp add: recvfrom_loop_timeout_again)
  with again.prems again.IH show ?case by simp
qed

lemma error_deliver_cases:
  "error (deliver cb p) = Some x \<Longrightarrow> error p = Some x \<or> cb = Error_received x"
  by (cases cb) (simp_all add: connection_made_def connection_lost_def
      datagram_received_def error_received_def)

lemma error_deliver_other:
  "\<forall>x. cb \<noteq> Error_received x \<Longrightarrow> error (deliver cb p) = error p"
  by (cases cb) (simp_all add: connection_made_def connection_lost_def
      datagram_received_def error_received_def)

lemma raised_origin:
  "outcome (recvfrom_loop now dl p evs) = Raised x \<Longrightarrow>
   error p = Some x \<or> Error_received x \<in> snd ` set evs"
proof (induction now dl p evs rule: loop_induct)
  case (head now dl p evs tr rest)
  then show ?case by (simp add: recvfrom_loop_head)
next
  case (idle now dl p)
  then show ?case by (simp add: recvfrom_loop_idle split: option.splits if_splits)
next
  case (due now dl p t cb evs)
  have "outcome (recvfrom_loop (max now t) dl (deliver cb p) evs) = Raised x"
    using due.prems due.hyps by (simp add: recvfrom_loop_due)
  then have "error (deliver cb p) = Some x \<or> Error_received x \<in> snd ` set evs"
    by (rule due.IH)
  then show ?case
  proof
    assume "error (deliver cb p) = Some x"
    then have "error p = Some x \<or> cb = Error_received x" by (rule error_deliver_cases)
    then show ?thesis by force
  next
    assume "Error_received x \<in> snd ` set evs"
    then show ?thesis by force
  qed
next
  case (raise now dl p t cb evs e)
  then show ?case by (simp add: recvfrom_loop_timeout_raise)
next
  case (again now dl p t cb evs)
  have "recvfrom_loop now dl p ((t, cb) # evs)
        = recvfrom_loop dl (dl + poll_interval) p ((t, cb) # evs)"
    using again.hyps by (simp add: recvfrom_loop_timeout_again)
  with again.prems again.IH show ?case by simp
qed

lemma sentinel_origin:
  "outcome (recvfrom_loop now dl p evs) = Returned None \<Longrightarrow>
   None \<in> set (packets p) \<or> Connection_lost \<in> snd ` set evs"
proof (induction now dl p evs rule: loop_induct)
  case (head now dl p evs tr rest)
  then show ?case by (simp add: recvfrom_loop_head)
next
  case (idle now dl p)
  then show ?case by (simp add: recvfrom_loop_idle split: option.splits if_splits)
next
  case (due now dl p t cb evs)
  have "outcome (recvfrom_loop (max now t) dl (deliver cb p) evs) = Returned None"
    using due.prems due.hyps by (simp add: recvfrom_loop_due)
  then have "None \<in> set (packets (deliver cb p)) \<or> Connection_lost \<in> snd ` set evs"
    by (rule due.IH)
  then show ?case
  proof
    assume "None \<in> set (packets (deliver cb p))"
    then have "cb = Connection_lost"
      using due.hyps by (simp add: packets_deliver sentinel_puts)
    then show ?thesis by force
  next
    assume "Connection_lost \<in> snd ` set evs"
    then show ?thesis by force
  qed
next
  case (raise now dl p t cb evs e)
  then show ?case by (simp add: recvfrom_loop_timeout_raise)
next
  case (again now dl p t cb evs)
  have "recvfrom_loop now dl p ((t, cb) # evs)
        = recvfrom_loop dl (dl + poll_interval) p ((t, cb) # evs)"
    using again.hyps by (simp add: recvfrom_loop_timeout_again)
  with again.prems again.IH show ?case by simp
qed

lemma pending_suffix:
  "set (pending (recvfrom_loop now dl p evs)) \<subseteq> set evs"
proof (induction now dl p evs rule: loop_induct)
  case (head now dl p evs tr rest)
  then show ?case by (simp add: recvfrom_loop_head)
next
  case (idle now dl p)
  then show ?case by (simp add: recvfrom_loop_idle split: option.splits)
next
  case (due now dl p t cb evs)
  then show ?case by (auto simp: recvfrom_loop_due)
next
  case (raise now dl p t cb evs e)
  then show ?case by (simp add: recvfrom_loop_timeout_raise)
next
  case (again now dl p t cb evs)
  have "recvfrom_loop now dl p ((t, cb) # evs)
        = recvfrom_loop dl (dl + poll_interval) p ((t, cb) # evs)"
    using again.hyps by (simp add: recvfrom_loop_timeout_again)
  with again.IH show ?case by simp
qed

lemma falsy_retained:
  "error p = Some e \<Longrightarrow> \<not> truthy e \<Longrightarrow> \<forall>ev\<in>set evs. \<forall>x. snd ev \<noteq> Error_received x \<Longrightarrow>
   (\<forall>x. outcome (recvfrom_loop now dl p evs) \<noteq> Raised x) \<and>
   error (state (recvfrom_loop now dl p evs)) = Some e"
proof (induction now dl p evs rule: loop_induct)
  case (head now dl p evs tr rest)
  then show ?case by (simp add: recvfrom_loop_head)
next
  case (idle now dl p)
  then show ?case by (simp add: recvfrom_loop_idle)
next
  case (due now dl p t cb evs)
  have "\<forall>x. cb \<noteq> Error_received x" using due.prems(3) by simp
  then have kept: "error (deliver cb p) = Some e"
    using due.prems(1) by (simp add: error_deliver_other)
  have later: "\<forall>ev\<in>set evs. \<forall>x. snd ev \<noteq> Error_received x"
    using due.prems(3) by simp
  have
    "(\<forall>x. outcome (recvfrom_loop (max now t) dl (deliver cb p) evs) \<noteq> Raised x) \<and>
     error (state (recvfrom_loop (max now t) dl (deliver cb p) evs)) = Some e"
    by (rule due.IH [OF kept due.prems(2) later])
  then show ?case using due.hyps by (simp add: recvfrom_loop_due)
next
  case (raise now dl p t cb evs e')
  then show ?case by simp
next
  case (again now dl p t cb evs)
  have "recvfrom_loop now dl p ((t, cb) # evs)
        = recvfrom_loop dl (dl + poll_interval) p ((t, cb) # evs)"
    using again.hyps by (simp add: recvfrom_loop_timeout_again)
  with again.prems again.IH show ?case by simp
qed

lemma loop_raises_pending:
  assumes "packets p = []" and "error p = Some e" and "truthy e"
    and "\<forall>ev\<in>set evs. dl \<le> fst ev"
  shows "recvfrom_loop now dl p evs =
     \<lparr>outcome = Raised e, finished = dl, state = p\<lparr>error := None\<rparr>, pending = evs\<rparr>"
proof (cases evs)
  case Nil
  with assms show ?thesis by (simp add: recvfrom_loop_idle)
next
  case (Cons ev rest)
  obtain t cb where ev: "ev = (t, cb)" by (cases ev)
  with assms Cons show ?thesis by (simp add: recvfrom_loop_timeout_raise)
qed

lemma loop_idle_suspended:
  "packets p = [] \<Longrightarrow> \<forall>x. error p = Some x \<longrightarrow> \<not> truthy x \<Longrightarrow>
   recvfrom_loop now dl p [] = \<lparr>outcome = Suspended, finished = dl, state = p, pending = []\<rparr>"
  by (auto simp: recvfrom_loop_idle split: option.splits)

lemma error_after_report:
  "packets p = [] \<Longrightarrow> \<forall>x. error p = Some x \<longrightarrow> \<not> truthy x \<Longrightarrow> truthy e \<Longrightarrow>
   dl \<le> te + poll_interval \<Longrightarrow> \<forall>ev\<in>set rest. te + poll_interval \<le> fst ev \<Longrightarrow>
   outcome (recvfrom_loop now dl p ((te, Error_received e) # rest)) = Raised e \<and>
   te < finished (recvfrom_loop now dl p ((te, Error_received e) # rest)) \<and>
   finished (recvfrom_loop now dl p ((te, Error_received e) # rest)) \<le> te + poll_interval \<and>
   error (state (recvfrom_loop now dl p ((te, Error_received e) # rest))) = None"
proof (induction "te + poll_interval - dl" arbitrary: now dl rule: less_induct)
  case less
  show ?case
  proof (cases "te < dl")
    case True
    let ?p = "deliver (Error_received e) p"
    have p': "packets ?p = []" "error ?p = Some e"
      using less.prems(1) by (simp_all add: error_received_def)
    have step: "recvfrom_loop now dl p ((te, Error_received e) # rest)
                = recvfrom_loop (max now te) dl ?p rest"
      using less.prems(1) True by (simp add: recvfrom_loop_due)
    show ?thesis
    proof (cases rest)
      case Nil
      with step p' less.prems True show ?thesis
        by (simp add: recvfrom_loop_idle)
    next
      case (Cons ev rest')
      obtain t cb where ev: "ev = (t, cb)" by (cases ev)
      have "dl \<le> t" using less.prems(4,5) Cons ev by auto
      with step p' less.prems True Cons ev show ?thesis
        by (simp add: recvfrom_loop_timeout_raise)
    qed
  next
    case False
    then have late: "dl \<le> te" by simp
    have step: "recvfrom_loop now dl p ((te, Error_received e) # rest)
                = recvfrom_loop dl (dl + poll_interval) p ((te, Error_received e) # rest)"
      using less.prems(1,2) late by (simp add: recvfrom_loop_timeout_again)
    have "te + poll_interval - (dl + poll_interval) < te + poll_interval - dl"
      using late by (simp add: poll_interval_def)
    moreover have "dl + poll_interval \<le> te + poll_interval" using late by simp
    ultimately show ?thesis
      unfolding step
      using less.hyps [of "dl + poll_interval" dl] less.prems by simp
  qed
qed

section \<open>\<^verbatim>\<open>Socket.recvfrom\<close> in terms of the loop\<close>

lemma Socket_outcome_closed:
  "(outcome (Socket_recvfrom now s evs) = Raised ClosedError) =
   (outcome (SocketProtocol_recvfrom now (protocol s) evs) = Returned None)"
  by (simp add: Socket_recvfrom_def Let_def split: outcome.splits option.splits)

lemma Socket_outcome_reported:
  "(outcome (Socket_recvfrom now s evs) = Raised (Reported e)) =
   (outcome (SocketProtocol_recvfrom now (protocol s) evs) = Raised e)"
  by (simp add: Socket_recvfrom_def Let_def split: outcome.splits option.splits)

lemma Socket_outcome_returned:
  "(outcome (Socket_recvfrom now s evs) = Returned pk) =
   (outcome (SocketProtocol_recvfrom now (protocol s) evs) = Returned (Some pk))"
  by (simp add: Socket_recvfrom_def Let_def split: outcome.splits option.splits)

lemma Socket_outcome_suspended:
  "(outcome (Socket_recvfrom now s evs) = Suspended) =
   (outcome (SocketProtocol_recvfrom now (protocol s) evs) = Suspended)"
  by (simp add: Socket_recvfrom_def Let_def split: outcome.splits option.splits)

lemma Socket_recvfrom_fields:
  "finished (Socket_recvfrom now s evs) = finished (SocketProtocol_recvfrom now (protocol s) evs)"
  "state (Socket_recvfrom now s evs) = s\<lparr>protocol := state (SocketProtocol_recvfrom now (protocol s) evs)\<rparr>"
  "pending (Socket_recvfrom now s evs) = pending (SocketProtocol_recvfrom now (protocol s) evs)"
  by (simp_all add: Socket_recvfrom_def Let_def split: outcome.splits option.splits)


text \<open>
  Every call ends as \<open>completes\<close> says, on the protocol as the callbacks made
  during the call left it.
\<close>

lemma loop_completes:
  "\<exists>made. evs = made @ pending (recvfrom_loop now dl p evs) \<and>
     completes (deliver_all (map snd made) p)
       (outcome (recvfrom_loop now dl p evs)) (state (recvfrom_loop now dl p evs))"
proof (induction now dl p evs rule: loop_induct)
  case (head now dl p evs tr rest)
  then have "evs = [] @ pending (recvfrom_loop now dl p evs) \<and>
     completes (deliver_all (map snd []) p)
       (outcome (recvfrom_loop now dl p evs)) (state (recvfrom_loop now dl p evs))"
    by (simp add: recvfrom_loop_head completes_def)
  then show ?case by blast
next
  case (idle now dl p)
  then have "[] = [] @ pending (recvfrom_loop now dl p []) \<and>
     completes (deliver_all (map snd []) p)
       (outcome (recvfrom_loop now dl p [])) (state (recvfrom_loop now dl p []))"
    by (simp add: recvfrom_loop_idle completes_def split: option.splits)
  then show ?case by blast
next
  case (due now dl p t cb evs)
  let ?r = "recvfrom_loop (max now t) dl (deliver cb p) evs"
  from due.IH obtain made where made: "evs = made @ pending ?r"
    "completes (deliver_all (map snd made) (deliver cb p)) (outcome ?r) (state ?r)"
    by blast
  have same: "recvfrom_loop now dl p ((t, cb) # evs) = ?r"
    using due.hyps by (simp add: recvfrom_loop_due)
  have "(t, cb) # evs = ((t, cb) # made) @ pending ?r \<and>
     completes (deliver_all (map snd ((t, cb) # made)) p) (outcome ?r) (state ?r)"
    using made by simp
  then show ?case unfolding same by blast
next
  case (raise now dl p t cb evs e)
  then have "(t, cb) # evs = [] @ pending (recvfrom_loop now dl p ((t, cb) # evs)) \<and>
     completes (deliver_all (map snd []) p)
       (outcome (recvfrom_loop now dl p ((t, cb) # evs)))
       (state (recvfrom_loop now dl p ((t, cb) # evs)))"
    by (simp add: recvfrom_loop_timeout_raise completes_def)
  then show ?case by blast
next
  case (again now dl p t cb evs)
  have "recvfrom_loop now dl p ((t, cb) # evs)
        = recvfrom_loop dl (dl + poll_interval) p ((t, cb) # evs)"
    using again.hyps by (simp add: recvfrom_loop_timeout_again)
  with again.IH show ?case by simp
qed

lemma ran_made: "evs = made @ pending r \<Longrightarrow> ran r evs = map snd made"
proof -
  assume "evs = made @ pending r"
  then have "take (length evs - length (pending r)) evs = made"
    by (metis add_diff_cancel_right' append_eq_conv_conj length_append)
  then show ?thesis by (simp add: ran_def)
qed

lemma recvfrom_completes:
  "completes (deliver_all (ran (SocketProtocol_recvfrom now p evs) evs) p)
     (outcome (SocketProtocol_recvfrom now p evs)) (state (SocketProtocol_recvfrom now p evs))"
proof -
  let ?r = "recvfrom_loop now (now + poll_interval) p evs"
  obtain made where made: "evs = made @ pending ?r"
    "completes (deliver_all (map snd made) p) (outcome ?r) (state ?r)"
    using loop_completes by blast
  then show ?thesis
    unfolding SocketProtocol_recvfrom_def by (simp add: ran_made)
qed

lemma ran_Socket:
  "ran (Socket_recvfrom now s evs) evs = ran (SocketProtocol_recvfrom now (protocol s) evs) evs"
  by (simp add: ran_def Socket_recvfrom_fields)


lemma sentinel_deliver_all:
  "(None \<in> set (packets (deliver_all cbs p))) = (None \<in> set (packets p) \<or> Connection_lost \<in> set cbs)"
  by (induction cbs arbitrary: p) (auto simp: packets_deliver sentinel_puts)

section \<open>Datagrams are received in the order of their callbacks\<close>

lemma packets_deliver_all: "packets (deliver_all cbs p) = packets p @ concat (map puts cbs)"
  by (induction cbs arbitrary: p) (simp_all add: packets_deliver)

lemma puts_datagrams: "concat (map puts (datagrams ds)) = map Some ds"
  by (induction ds) (auto simp: datagrams_def)

lemma Socket_recvfrom_head:
  "packets (protocol s) = Some pk # rest \<Longrightarrow>
   Socket_recvfrom now s evs =
     \<lparr>outcome = Returned pk, finished = now,
      state = s\<lparr>protocol := (protocol s)\<lparr>packets := rest\<rparr>\<rparr>, pending = evs\<rparr>"
  by (simp add: Socket_recvfrom_def SocketProtocol_recvfrom_def recvfrom_loop_head)

lemma recvfrom_times_queued:
  "packets (protocol s) = map Some ds @ q \<Longrightarrow>
   recvfrom_times (length ds) now s evs = map Returned ds"
proof (induction ds arbitrary: s)
  case Nil
  show ?case by simp
next
  case (Cons d ds)
  then have hd: "packets (protocol s) = Some d # (map Some ds @ q)" by simp
  let ?s' = "s\<lparr>protocol := (protocol s)\<lparr>packets := map Some ds @ q\<rparr>\<rparr>"
  have "packets (protocol ?s') = map Some ds @ q" by simp
  then have "recvfrom_times (length ds) now ?s' evs = map Returned ds"
    by (rule Cons.IH)
  then show ?case
    by (simp add: Socket_recvfrom_head [OF hd])
qed

text \<open>
  Claim C1. The event loop delivers the datagrams \<open>ds\<close> to the protocol of a new
  socket, one \<^verbatim>\<open>datagram_received\<close> callback each, before any receive. Then
  \<open>length ds\<close> successive calls of \<^verbatim>\<open>Socket.recvfrom\<close> return exactly the pairs
  \<open>(payload, sender address)\<close> of \<open>ds\<close>, in the order of the callbacks, each
  payload with the address of its own callback. This holds whenever the calls
  start and whatever the event loop does meanwhile (\<open>evs\<close>).
\<close>

theorem recvfrom_returns_datagrams_in_callback_order:
  "recvfrom_times (length ds) now
     (s\<lparr>protocol := deliver_all (datagrams ds) init_protocol\<rparr>) evs = map Returned ds"
proof -
  have "packets (deliver_all (datagrams ds) init_protocol) = map Some ds @ []"
    by (simp add: packets_deliver_all puts_datagrams init_protocol_def)
  then show ?thesis
    by (intro recvfrom_times_queued) simp
qed

section \<open>\<^verbatim>\<open>ClosedError\<close> and the closure sentinel\<close>

text \<open>
  Claim C2. Take the protocol's queue once the callbacks made during a call of
  \<^verbatim>\<open>Socket.recvfrom\<close> have run, and the queue the call leaves. The call raises
  \<^verbatim>\<open>ClosedError\<close> if and only if it has taken the sentinel \<^verbatim>\<open>None\<close> from the
  head of the queue; it returns the pair \<open>pk\<close> if and only if it has taken the
  datagram \<open>pk\<close> from the head of the queue, so a dequeued datagram is returned
  and never raises \<^verbatim>\<open>ClosedError\<close>. And a sentinel is in the queue after some
  callbacks exactly when it was there before or \<^verbatim>\<open>connection_lost\<close> is among
  them: the sentinel is the one \<^verbatim>\<open>connection_lost\<close> enqueues.
\<close>

theorem closed_error_iff_sentinel_dequeued:
  "(outcome (Socket_recvfrom now s evs) = Raised ClosedError) =
     (packets (deliver_all (ran (Socket_recvfrom now s evs) evs) (protocol s))
        = None # packets (protocol (state (Socket_recvfrom now s evs)))) \<and>
   (outcome (Socket_recvfrom now s evs) = Returned pk) =
     (packets (deliver_all (ran (Socket_recvfrom now s evs) evs) (protocol s))
        = Some pk # packets (protocol (state (Socket_recvfrom now s evs)))) \<and>
   (None \<in> set (packets (deliver_all cbs p)))
     = (None \<in> set (packets p) \<or> Connection_lost \<in> set cbs)"
proof -
  let ?r = "SocketProtocol_recvfrom now (protocol s) evs"
  let ?q = "deliver_all (ran ?r evs) (protocol s)"
  have ends: "completes ?q (outcome ?r) (state ?r)"
    by (rule recvfrom_completes)
  have closed: "(outcome ?r = Returned None) = (packets ?q = None # packets (state ?r))"
    using ends by (cases "outcome ?r") (auto simp: completes_def)
  have returned: "(outcome ?r = Returned (Some pk)) = (packets ?q = Some pk # packets (state ?r))"
    using ends by (cases "outcome ?r") (auto simp: completes_def)
  show ?thesis
    using closed returned
    by (simp add: Socket_outcome_closed Socket_outcome_returned ran_Socket
        Socket_recvfrom_fields sentinel_deliver_all)
qed

theorem closed_error_iff_sentinel_dequeued_witness:
  "outcome (Socket_recvfrom 0 (create_socket accepting_transport) [(2, Connection_lost)])
     = Raised ClosedError \<and>
   ran (Socket_recvfrom 0 (create_socket accepting_transport) [(2, Connection_lost)])
     [(2, Connection_lost)] = [Connection_lost] \<and>
   packets (deliver_all [Connection_lost] init_protocol) = [None] \<and>
   packets (protocol (state
     (Socket_recvfrom 0 (create_socket accepting_transport) [(2, Connection_lost)]))) = [] \<and>
   outcome (Socket_recvfrom 0 ((create_socket accepting_transport)
      \<lparr>protocol := datagram_received ''hi'' (''10.0.0.2'', 9) init_protocol\<rparr>) [])
     = Returned (''hi'', (''10.0.0.2'', 9))"
  using closed_error_iff_sentinel_dequeued [of 0 "create_socket accepting_transport"
      "[(2, Connection_lost)]"]
    closed_error_iff_sentinel_dequeued [of 0
      "(create_socket accepting_transport)
         \<lparr>protocol := datagram_received ''hi'' (''10.0.0.2'', 9) init_protocol\<rparr>" "[]"
      "(''hi'', (''10.0.0.2'', 9))"]
  by (simp add: Socket_recvfrom_def SocketProtocol_recvfrom_def Let_def ran_def poll_interval_def
      recvfrom_loop_head recvfrom_loop_due create_socket_def connection_lost_def
      datagram_received_def init_protocol_def)

section \<open>A reported error is raised once, at a timeout\<close>

text \<open>
  Claim C3, as stated, fails in two runs. The mailbox of \<open>falsy_report\<close> holds a
  reported error that tests false and its queue is empty: the next
  \<^verbatim>\<open>Socket.recvfrom\<close> never raises it, the call never completes. The mailbox of
  \<open>pending_report\<close> holds an ordinary error and its queue is empty, and a
  datagram arrives at time 2, within the poll interval: the next
  \<^verbatim>\<open>Socket.recvfrom\<close> returns the datagram instead of raising the error.
\<close>

theorem reported_error_not_raised_by_next_recvfrom:
  "outcome (Socket_recvfrom 0 falsy_report []) = Suspended \<and>
   outcome (Socket_recvfrom 0 pending_report [(2, Datagram_received ''a'' (''10.0.0.2'', 9))])
     = Returned (''a'', (''10.0.0.2'', 9))"
  by (simp add: falsy_report_def pending_report_def Socket_recvfrom_def Let_def
      SocketProtocol_recvfrom_def poll_interval_def recvfrom_loop_idle recvfrom_loop_due
      recvfrom_loop_head error_received_def datagram_received_def init_protocol_def
      create_socket_def)

text \<open>
  Claim C3, amended. A transport error \<open>e\<close> that tests true has been reported by
  \<^verbatim>\<open>error_received\<close>, the queue is empty, and the event loop makes no callback
  before the poll timeout. Then the next \<^verbatim>\<open>Socket.recvfrom\<close>, called at \<open>now\<close>,
  raises exactly \<open>e\<close> at \<open>now + poll_interval\<close> and leaves the mailbox empty; a
  second call made at once does not raise \<open>e\<close> again, unless the event loop
  reports \<open>e\<close> again.
\<close>

theorem reported_error_raised_once:
  assumes "truthy e" and "packets p = []"
    and "\<forall>ev\<in>set evs. now + poll_interval \<le> fst ev"
    and "Error_received e \<notin> snd ` set evs"
  shows "let r1 = Socket_recvfrom now (s\<lparr>protocol := error_received e p\<rparr>) evs;
             r2 = Socket_recvfrom (finished r1) (state r1) (pending r1)
         in outcome r1 = Raised (Reported e) \<and> finished r1 = now + poll_interval \<and>
            error (protocol (state r1)) = None \<and> outcome r2 \<noteq> Raised (Reported e)"
proof -
  let ?p = "error_received e p"
  let ?s = "s\<lparr>protocol := ?p\<rparr>"
  have p: "packets ?p = []" "error ?p = Some e"
    using assms(2) by (simp_all add: error_received_def)
  have first: "SocketProtocol_recvfrom now ?p evs =
      \<lparr>outcome = Raised e, finished = now + poll_interval,
       state = ?p\<lparr>error := None\<rparr>, pending = evs\<rparr>"
    unfolding SocketProtocol_recvfrom_def
    by (rule loop_raises_pending [OF p assms(1) assms(3)])
  let ?r1 = "Socket_recvfrom now ?s evs"
  have r1: "outcome ?r1 = Raised (Reported e)" "finished ?r1 = now + poll_interval"
    "state ?r1 = ?s\<lparr>protocol := ?p\<lparr>error := None\<rparr>\<rparr>" "pending ?r1 = evs"
    by (simp_all add: Socket_outcome_reported Socket_recvfrom_fields first)
  have "outcome (Socket_recvfrom (finished ?r1) (state ?r1) (pending ?r1)) \<noteq> Raised (Reported e)"
  proof
    assume "outcome (Socket_recvfrom (finished ?r1) (state ?r1) (pending ?r1)) = Raised (Reported e)"
    then have "outcome (recvfrom_loop (now + poll_interval) (now + poll_interval + poll_interval)
                 (?p\<lparr>error := None\<rparr>) evs) = Raised e"
      by (simp add: r1 Socket_outcome_reported SocketProtocol_recvfrom_def)
    then have "error (?p\<lparr>error := None\<rparr>) = Some e \<or> Error_received e \<in> snd ` set evs"
      by (rule raised_origin)
    with assms(4) show False by simp
  qed
  with r1 show ?thesis by (simp add: Let_def)
qed

theorem reported_error_raised_once_witness:
  "truthy (Exc 7 True) \<and>
   recvfrom_times 2 0 ((create_socket accepting_transport)
     \<lparr>protocol := error_received (Exc 7 True) init_protocol\<rparr>) []
     = [Raised (Reported (Exc 7 True)), Suspended]"
  using reported_error_raised_once [of "Exc 7 True" init_protocol "[]" 0
      "create_socket accepting_transport"]
  by (simp add: numeral_2_eq_2 Let_def init_protocol_def Socket_recvfrom_def
      SocketProtocol_recvfrom_def recvfrom_loop_idle error_received_def create_socket_def)

section \<open>After the sentinel has been dequeued\<close>







section \<open>How long a reported error waits\<close>

lemma busy_first_eval:
  "busy_first =
     \<lparr>outcome = Returned (''a'', (''10.0.0.2'', 9)), finished = 3,
      state = (create_socket accepting_transport)
        \<lparr>protocol := \<lparr>packets = [], error = Some (Exc 1 True)\<rparr>\<rparr>,
      pending = [(8, Datagram_received ''b'' (''10.0.0.2'', 9))]\<rparr>"
  by (simp add: busy_first_def busy_events_def Socket_recvfrom_def SocketProtocol_recvfrom_def
      Let_def poll_interval_def create_socket_def init_protocol_def recvfrom_loop_due
      recvfrom_loop_head error_received_def datagram_received_def)

text \<open>
  A datagram that arrives before the timeout is returned, and the call leaves
  the socket as it found it, the mailbox included. Repeated, this postpones an
  error in the mailbox for as long as datagrams keep arriving.
\<close>

lemma datagram_before_timeout_keeps_mailbox:
  assumes "packets (protocol s) = []" and "t < now + poll_interval"
  shows "Socket_recvfrom now s ((t, Datagram_received data a) # evs) =
     \<lparr>outcome = Returned (data, a), finished = max now t, state = s, pending = evs\<rparr>"
proof -
  let ?p = "datagram_received data a (protocol s)"
  have queued: "packets ?p = [Some (data, a)]"
    using assms(1) by (simp add: datagram_received_def)
  have restored: "?p\<lparr>packets := []\<rparr> = protocol s"
    using assms(1) by (simp add: datagram_received_def)
  have "SocketProtocol_recvfrom now (protocol s) ((t, Datagram_received data a) # evs) =
     \<lparr>outcome = Returned (Some (data, a)), finished = max now t,
      state = ?p\<lparr>packets := []\<rparr>, pending = evs\<rparr>"
    using assms queued
    by (simp add: SocketProtocol_recvfrom_def recvfrom_loop_due recvfrom_loop_head)
  then show ?thesis
    by (simp add: Socket_recvfrom_def restored)
qed

text \<open>
  Claim C5, as stated, fails. A consumer calls \<^verbatim>\<open>recvfrom\<close> at time 0 on a new
  socket and calls it again as soon as it returns. An ordinary error is reported
  at time 1, while the consumer is blocked; datagrams arrive at times 3 and 8.
  The first call returns the first datagram at time 3, the second call returns
  the second datagram at time 8: more than one poll interval after the report
  the error has not been raised and is still in the mailbox. And an error that
  tests false, reported at time 1 to a blocked consumer, is never raised.
\<close>

theorem error_postponed_by_datagrams:
  "outcome busy_first = Returned (''a'', (''10.0.0.2'', 9)) \<and> finished busy_first = 3 \<and>
   outcome busy_second = Returned (''b'', (''10.0.0.2'', 9)) \<and> finished busy_second = 8 \<and>
   error (protocol (state busy_second)) = Some (Exc 1 True) \<and>
   1 + poll_interval < finished busy_second \<and>
   outcome (Socket_recvfrom 0 (create_socket accepting_transport)
     [(1, Error_received (Exc 1 False))]) = Suspended"
  by (simp add: busy_second_def busy_first_eval Socket_recvfrom_def SocketProtocol_recvfrom_def
      Let_def poll_interval_def create_socket_def init_protocol_def recvfrom_loop_due
      recvfrom_loop_idle recvfrom_loop_head datagram_received_def error_received_def)

text \<open>
  Claim C5, amended. A consumer is blocked in \<^verbatim>\<open>recvfrom\<close>, called at \<open>now\<close>, on
  an empty queue and a mailbox holding nothing that tests true. An error \<open>e\<close>
  that tests true is reported at \<open>te\<close>, and the event loop makes no other callback
  until one poll interval after the report. Then \<open>e\<close> is raised to that consumer
  after \<open>te\<close> and no later than \<open>te + poll_interval\<close>.
\<close>

theorem error_raised_within_poll_interval_on_quiet_queue:
  assumes "truthy e" and "packets (protocol s) = []"
    and "\<forall>x. error (protocol s) = Some x \<longrightarrow> \<not> truthy x"
    and "now \<le> te" and "\<forall>ev\<in>set rest. te + poll_interval \<le> fst ev"
  shows "outcome (Socket_recvfrom now s ((te, Error_received e) # rest)) = Raised (Reported e) \<and>
         te < finished (Socket_recvfrom now s ((te, Error_received e) # rest)) \<and>
         finished (Socket_recvfrom now s ((te, Error_received e) # rest)) \<le> te + poll_interval"
proof -
  have "now + poll_interval \<le> te + poll_interval" using assms(4) by simp
  from error_after_report [OF assms(2) assms(3) assms(1) this assms(5), of now]
  show ?thesis
    by (simp add: Socket_outcome_reported Socket_recvfrom_fields SocketProtocol_recvfrom_def)
qed

theorem error_raised_within_poll_interval_on_quiet_queue_witness:
  "truthy (Exc 1 True) \<and> (0::nat) \<le> 14 \<and>
   outcome (Socket_recvfrom 0 (create_socket accepting_transport)
     [(14, Error_received (Exc 1 True)), (20, Datagram_received ''a'' (''10.0.0.2'', 9))])
     = Raised (Reported (Exc 1 True)) \<and>
   finished (Socket_recvfrom 0 (create_socket accepting_transport)
     [(14, Error_received (Exc 1 True)), (20, Datagram_received ''a'' (''10.0.0.2'', 9))])
     = 18"
  using error_raised_within_poll_interval_on_quiet_queue [of "Exc 1 True"
      "create_socket accepting_transport" 0 14
      "[(20, Datagram_received ''a'' (''10.0.0.2'', 9))]"]
  by (simp add: Socket_recvfrom_def SocketProtocol_recvfrom_def
      Let_def poll_interval_def create_socket_def init_protocol_def recvfrom_loop_due
      recvfrom_loop_timeout_again recvfrom_loop_timeout_raise error_received_def)

section \<open>The error mailbox\<close>

text \<open>
  Claim C6, as stated, fails in its rule that a new error overwrites the slot
  only if the stored one has been consumed. Error 1 is reported to a new
  protocol and stays in the mailbox; error 2 is reported with no
  \<^verbatim>\<open>recvfrom\<close> in between: the mailbox then holds error 2, not error 1.
\<close>

theorem unconsumed_error_is_overwritten:
  "error (error_received (Exc 1 True) init_protocol) = Some (Exc 1 True) \<and>
   error (error_received (Exc 2 True) (error_received (Exc 1 True) init_protocol))
     = Some (Exc 2 True) \<and>
   error (error_received (Exc 2 True) (error_received (Exc 1 True) init_protocol))
     \<noteq> error (error_received (Exc 1 True) init_protocol)"
  by (simp add: error_received_def init_protocol_def)

text \<open>
  Claim C6, amended. The mailbox holds at most one error and
  \<^verbatim>\<open>error_received\<close> replaces its content unconditionally, consumed or not,
  without touching the queue: the last write wins. Of two errors reported with
  no consuming \<^verbatim>\<open>recvfrom\<close> in between, on an empty queue, the second is raised
  by the next call when it tests true, and the first is never raised.
\<close>

theorem error_received_last_write_wins:
  "error (error_received e p) = Some e \<and>
   packets (error_received e p) = packets p \<and>
   error (error_received e2 (error_received e1 p)) = Some e2 \<and>
   (truthy e2 \<and> packets p = [] \<longrightarrow>
      recvfrom_times 2 now (s\<lparr>protocol := error_received e2 (error_received e1 p)\<rparr>) []
        = [Raised (Reported e2), Suspended])"
  by (simp add: numeral_2_eq_2 Let_def Socket_recvfrom_def
      SocketProtocol_recvfrom_def recvfrom_loop_idle error_received_def)

theorem error_received_last_write_wins_witness:
  "truthy (Exc 2 True) \<and> packets init_protocol = [] \<and>
   recvfrom_times 2 0 ((create_socket accepting_transport)
       \<lparr>protocol := error_received (Exc 2 True) (error_received (Exc 1 True) init_protocol)\<rparr>) []
     = [Raised (Reported (Exc 2 True)), Suspended]"
  using error_received_last_write_wins [of "Exc 2 True" init_protocol "Exc 2 True" "Exc 1 True"
      0 "create_socket accepting_transport"]
  by (simp add: init_protocol_def)

section \<open>The sentinel is enqueued once and last\<close>














section \<open>\<^verbatim>\<open>Socket.sendto\<close>\<close>

text \<open>
  Claim C8, as stated, fails in its promise that the call never raises
  synchronously. The transport of this socket is connected to the peer
  \<open>10.0.0.1:9\<close> and raises on any other explicit address;
  \<^verbatim>\<open>sendto(b"ping", ("10.0.0.2", 9))\<close> raises that exception to its caller.
\<close>

theorem sendto_raises_what_transport_raises:
  "Socket_sendto (create_socket (connected_transport (''10.0.0.1'', 9)))
     ''ping'' (Some (''10.0.0.2'', 9)) = Inl (Exc 22 True)"
  by (simp add: Socket_sendto_def Transport_sendto_def create_socket_def connected_transport_def)

text \<open>
  Claim C8, amended. \<^verbatim>\<open>Socket.sendto(data, addr)\<close> hands exactly \<open>data\<close> and
  \<open>addr\<close> (\<^verbatim>\<open>None\<close> when omitted) to the transport's \<^verbatim>\<open>sendto\<close>, in the same
  call, and keeps nothing of it: a later call without address hands \<^verbatim>\<open>None\<close>
  to the transport again. It raises exactly when the transport raises, and
  then the transport's exception.
  A send failure that the transport reports to the protocol instead is in the
  mailbox when \<^verbatim>\<open>Socket.sendto\<close> returns; when it tests true and the queue is
  empty, the next \<^verbatim>\<open>recvfrom\<close> raises it, if the event loop makes no callback
  meanwhile.
\<close>

theorem sendto_hands_over_or_propagates:
  "(case Socket_sendto s data a of
      Inl e \<Rightarrow> sendto_check (transport s) data a = Raises e
    | Inr s' \<Rightarrow>
        sendto_calls (transport s') = sendto_calls (transport s) @ [(data, a)] \<and>
        (case Socket_sendto s' data' None of
           Inl e \<Rightarrow> True
         | Inr s'' \<Rightarrow>
             sendto_calls (transport s'')
               = sendto_calls (transport s) @ [(data, a), (data', None)]) \<and>
        (case sendto_check (transport s) data a of
           Accepts \<Rightarrow> True
         | Raises e \<Rightarrow> False
         | Reports e \<Rightarrow>
             error (protocol s') = Some e \<and>
             (truthy e \<and> packets (protocol s) = [] \<longrightarrow>
                outcome (Socket_recvfrom now s' []) = Raised (Reported e))))"
  by (simp add: Socket_sendto_def Transport_sendto_def error_received_def
      Socket_outcome_reported SocketProtocol_recvfrom_def recvfrom_loop_idle
      split: verdict.splits)

theorem sendto_hands_over_or_propagates_witness:
  "(case Socket_sendto (create_socket (connected_transport (''10.0.0.1'', 9))) ''ping'' None of
      Inl e \<Rightarrow> False
    | Inr s' \<Rightarrow> sendto_calls (transport s') = [(''ping'', None)]) \<and>
   (case Socket_sendto (create_socket refused_transport) ''ping'' (Some (''10.0.0.2'', 9)) of
      Inl e \<Rightarrow> False
    | Inr s' \<Rightarrow>
        sendto_calls (transport s') = [(''ping'', Some (''10.0.0.2'', 9))] \<and>
        error (protocol s') = Some (Exc 111 True) \<and>
        outcome (Socket_recvfrom 0 s' []) = Raised (Reported (Exc 111 True)))"
  using sendto_hands_over_or_propagates [of "create_socket (connected_transport (''10.0.0.1'', 9))"
      "''ping''" None "''pong''" 0]
    sendto_hands_over_or_propagates [of "create_socket refused_transport"
      "''ping''" "Some (''10.0.0.2'', 9)" "''pong''" 0]
  by (simp add: Socket_sendto_def Transport_sendto_def create_socket_def connected_transport_def
      refused_transport_def init_protocol_def error_received_def)

section \<open>Scoped use\<close>

text \<open>
  Claim C9. However the body of \<^verbatim>\<open>async with sock\<close> is left (normal return,
  exception or cancellation), \<^verbatim>\<open>__aexit__\<close> is \<^verbatim>\<open>Socket.close\<close>, applied once to
  the socket as the body left it: the transport's \<^verbatim>\<open>close\<close> has been called
  exactly once more than at the end of the body, and the way the body was left
  is passed on. \<^verbatim>\<open>Socket.close\<close> changes nothing but that count: not the
  \<^verbatim>\<open>sendto\<close> log, not the protocol's queue and mailbox.
\<close>

theorem aexit_closes_exactly_once:
  "async_with s body = (Socket_close (fst (body s)), snd (body s)) \<and>
   close_calls (transport (fst (async_with s body)))
     = Suc (close_calls (transport (fst (body s)))) \<and>
   Socket_aexit s' path = Socket_close s' \<and>
   close_calls (transport (Socket_close s')) = Suc (close_calls (transport s')) \<and>
   sendto_calls (transport (Socket_close s')) = sendto_calls (transport s') \<and>
   sendto_check (transport (Socket_close s')) = sendto_check (transport s') \<and>
   protocol (Socket_close s') = protocol s'"
  by (simp add: async_with_def Socket_aenter_def Socket_aexit_def Socket_close_def
      split: prod.splits)

theorem aexit_closes_exactly_once_witness:
  "close_calls (transport (fst (async_with (create_socket accepting_transport)
      (\<lambda>s. (s, Cancelled))))) = 1 \<and>
   close_calls (transport (fst (async_with (create_socket accepting_transport)
      (\<lambda>s. (s, Exception_raised (Exc 5 True)))))) = 1 \<and>
   close_calls (transport (fst (async_with (create_socket accepting_transport)
      (\<lambda>s. (s, Normal_return))))) = 1"
  using aexit_closes_exactly_once [of "create_socket accepting_transport" "\<lambda>s. (s, Cancelled)"]
    aexit_closes_exactly_once [of "create_socket accepting_transport"
      "\<lambda>s. (s, Exception_raised (Exc 5 True))"]
    aexit_closes_exactly_once [of "create_socket accepting_transport"
      "\<lambda>s. (s, Normal_return)"]
  by (simp add: create_socket_def accepting_transport_def)

section \<open>An error that tests false\<close>

text \<open>
  Claim C10. The timeout branch tests the truth value of the mailbox's content,
  not its presence. An error \<open>e\<close> that tests false is never raised by the
  protocol's \<^verbatim>\<open>recvfrom\<close>. While it is in the mailbox and the event loop reports
  no other error, a call raises nothing at all and leaves \<open>e\<close> in the mailbox,
  and the callbacks still to come are among those there were: so the same holds
  of every later call.
\<close>

theorem falsy_error_never_delivered:
  assumes "\<not> truthy e"
  shows "outcome (SocketProtocol_recvfrom now p evs) \<noteq> Raised e \<and>
         (error p = Some e \<and> (\<forall>ev\<in>set evs. \<forall>x. snd ev \<noteq> Error_received x) \<longrightarrow>
            (\<forall>x. outcome (SocketProtocol_recvfrom now p evs) \<noteq> Raised x) \<and>
            error (state (SocketProtocol_recvfrom now p evs)) = Some e \<and>
            set (pending (SocketProtocol_recvfrom now p evs)) \<subseteq> set evs)"
proof
  show "outcome (SocketProtocol_recvfrom now p evs) \<noteq> Raised e"
    using assms raised_truthy [of now "now + poll_interval" p evs e]
    by (auto simp: SocketProtocol_recvfrom_def)
next
  show "error p = Some e \<and> (\<forall>ev\<in>set evs. \<forall>x. snd ev \<noteq> Error_received x) \<longrightarrow>
        (\<forall>x. outcome (SocketProtocol_recvfrom now p evs) \<noteq> Raised x) \<and>
        error (state (SocketProtocol_recvfrom now p evs)) = Some e \<and>
        set (pending (SocketProtocol_recvfrom now p evs)) \<subseteq> set evs"
    unfolding SocketProtocol_recvfrom_def
    using falsy_retained [of p e evs now "now + poll_interval"] assms
      pending_suffix [of now "now + poll_interval" p evs]
    by blast
qed

theorem falsy_error_never_delivered_witness:
  "\<not> truthy (Exc 1 False) \<and>
   outcome (SocketProtocol_recvfrom 0 (error_received (Exc 1 False) init_protocol)
     [(2, Connection_made)]) = Suspended \<and>
   error (state (SocketProtocol_recvfrom 0 (error_received (Exc 1 False) init_protocol)
     [(2, Connection_made)])) = Some (Exc 1 False)"
  using falsy_error_never_delivered [of "Exc 1 False" 0
      "error_received (Exc 1 False) init_protocol" "[(2, Connection_made)]"]
  by (simp add: SocketProtocol_recvfrom_def poll_interval_def recvfrom_loop_due
      recvfrom_loop_idle error_received_def init_protocol_def connection_made_def)

end
